theory Spec2Isabelle
  imports Complex_Main "HOL-Library.Multiset"
begin

section \<open>Synthetic data generator (src/synthetic\_data.py)\<close>

text \<open>
  The three generators of \<^verbatim>\<open>synthetic_data.py\<close> are embedded as functions that
  thread the random generator explicitly. Floating-point numbers are idealised as exact
  rationals: a decimal literal of the source is the rational it denotes, and sums are exact.
\<close>

subsection \<open>Timestamps\<close>

text \<open>
  A timezone-naive pandas \<^verbatim>\<open>Timestamp\<close> is a count of nanoseconds since
  1970-01-01 00:00, which was a Thursday (\<^verbatim>\<open>dayofweek\<close> 3, Monday being 0).
\<close>

type_synonym timestamp = int

definition ns_per_minute :: int where
  "ns_per_minute = 60000000000"

definition ns_per_hour :: int where
  "ns_per_hour = 3600000000000"

definition ns_per_day :: int where
  "ns_per_day = 86400000000000"

definition dayofweek :: "timestamp \<Rightarrow> int" where
  "dayofweek ts = (ts div ns_per_day + 3) mod 7"

definition hour :: "timestamp \<Rightarrow> int" where
  "hour ts = (ts div ns_per_hour) mod 24"

definition floor_h :: "timestamp \<Rightarrow> timestamp" where
  "floor_h ts = (ts div ns_per_hour) * ns_per_hour"

definition Timedelta_minutes :: "int \<Rightarrow> int" where
  "Timedelta_minutes m = m * ns_per_minute"

definition Timedelta_hours :: "int \<Rightarrow> int" where
  "Timedelta_hours h = h * ns_per_hour"

text \<open>
  \<^verbatim>\<open>pd.date_range(start, end, freq="h")\<close>: the points \<open>start + k\<close> hours that are
  not after \<open>end\<close>; none when \<open>end\<close> is before \<open>start\<close>.
\<close>

definition date_range_h :: "timestamp \<Rightarrow> timestamp \<Rightarrow> timestamp list" where
  "date_range_h start end =
     (if end < start then []
      else map (\<lambda>k. start + Timedelta_hours (int k))
             [0 ..< Suc (nat ((end - start) div ns_per_hour))])"

definition hours_between :: "timestamp \<Rightarrow> timestamp \<Rightarrow> timestamp list" where
  "hours_between start_date end_date = date_range_h start_date end_date"

subsection \<open>Errors\<close>

datatype error = KeyError string | ValueError string

subsection \<open>The random generator\<close>

text \<open>
  The process-wide generator of \<^verbatim>\<open>np.random\<close> is an oracle: an infinite sequence of
  rationals, one consumed per draw. Each library call decodes its draw into the range its
  contract gives, and every value of that range is the decoding of some draw.
\<close>

type_synonym rng = "nat \<Rightarrow> rat"

definition next_draw :: "rng \<Rightarrow> rat \<times> rng" where
  "next_draw g = (g 0, \<lambda>n. g (Suc n))"

text \<open>\<^verbatim>\<open>np.random.rand()\<close>: a number in \<open>[0, 1)\<close>.\<close>

definition random_rand :: "rng \<Rightarrow> rat \<times> rng" where
  "random_rand g = (case next_draw g of (q, g') \<Rightarrow> (frac q, g'))"

text \<open>\<^verbatim>\<open>np.random.normal(loc, scale)\<close>: any number, \<open>loc\<close> plus \<open>scale\<close> standard deviates.\<close>

definition random_normal :: "rat \<Rightarrow> rat \<Rightarrow> rng \<Rightarrow> rat \<times> rng" where
  "random_normal loc scale g = (case next_draw g of (q, g') \<Rightarrow> (loc + scale * q, g'))"

text \<open>
  \<^verbatim>\<open>np.random.poisson(lam)\<close>: a count; \<^verbatim>\<open>ValueError\<close> for a negative rate, always 0
  for the rate 0.
\<close>

definition random_poisson :: "rat \<Rightarrow> rng \<Rightarrow> error + (nat \<times> rng)" where
  "random_poisson lam g =
     (if lam < 0 then Inl (ValueError ''lam < 0'')
      else case next_draw g of (q, g') \<Rightarrow>
        Inr (if lam = 0 then 0 else nat \<lfloor>\<bar>q\<bar>\<rfloor>, g'))"

text \<open>
  \<^verbatim>\<open>np.random.randint(low, high)\<close>: an integer in \<open>[low, high)\<close>. The source calls it
  with the constants 0 and 60 only.
\<close>

definition random_randint :: "int \<Rightarrow> int \<Rightarrow> rng \<Rightarrow> int \<times> rng" where
  "random_randint low high g =
     (case next_draw g of (q, g') \<Rightarrow> (low + \<lfloor>q\<rfloor> mod (high - low), g'))"

text \<open>
  \<^verbatim>\<open>np.random.choice(a, p=p)\<close>: numpy draws a uniform \<open>u\<close> and returns the element at
  the position \<^verbatim>\<open>cdf.searchsorted(u, side="right")\<close>, the number of entries of the
  cumulative sums of \<open>p\<close> that are at most \<open>u\<close>.
\<close>

fun cumsum :: "rat \<Rightarrow> rat list \<Rightarrow> rat list" where
  "cumsum acc [] = []"
| "cumsum acc (p # ps) = (acc + p) # cumsum (acc + p) ps"

definition random_choice :: "'a list \<Rightarrow> rat list \<Rightarrow> rng \<Rightarrow> 'a \<times> rng" where
  "random_choice a p g =
     (case random_rand g of (u, g') \<Rightarrow>
        (a ! length (filter (\<lambda>c. c \<le> u) (cumsum 0 p)), g'))"

definition clip :: "rat \<Rightarrow> rat \<Rightarrow> rat \<Rightarrow> rat" where
  "clip a a_min a_max = min (max a a_min) a_max"

subsection \<open>Tables\<close>

record row =
  timestamp :: timestamp

record match_event = row +
  tournament :: string
  traffic_multiplier :: rat

record deploy_event = row +
  is_critical_fix :: bool
  deploy_size :: string

record incident = row +
  incident_type :: string
  severity :: string

text \<open>
  A data frame: its column names, its row index and its rows. \<^verbatim>\<open>pd.DataFrame(rows)\<close>
  of a list of dictionaries takes its columns from the dictionaries, so the frame of the
  empty list has no column at all; the index is \<open>0 .. n - 1\<close>.
\<close>

record 'r dataframe =
  columns :: "string list"
  index :: "nat list"
  records :: "'r list"

definition DataFrame :: "string list \<Rightarrow> 'r list \<Rightarrow> 'r dataframe" where
  "DataFrame keys rows =
     \<lparr>columns = (if rows = [] then [] else keys),
      index = [0 ..< length rows],
      records = rows\<rparr>"

text \<open>
  \<^verbatim>\<open>df.sort_values("timestamp")\<close>: \<^verbatim>\<open>KeyError\<close> when the frame has no such column;
  otherwise the rows, each with its index label, in ascending order of the timestamp.
  (The order pandas gives to rows of equal timestamp is not specified; here they keep their
  order. No property below depends on it.)
\<close>

definition sort_values :: "string \<Rightarrow> ('a row_scheme) dataframe \<Rightarrow> error + ('a row_scheme) dataframe" where
  "sort_values by df =
     (if by \<notin> set (columns df) then Inl (KeyError by)
      else let ps = sort_key (\<lambda>p. timestamp (snd p)) (zip (index df) (records df))
           in Inr (df\<lparr>index := map fst ps, records := map snd ps\<rparr>))"

text \<open>\<^verbatim>\<open>df.reset_index(drop=True)\<close>\<close>

definition reset_index_drop :: "'r dataframe \<Rightarrow> 'r dataframe" where
  "reset_index_drop df = df\<lparr>index := [0 ..< length (records df)]\<rparr>"

text \<open>The last line of each generator:
  \<^verbatim>\<open>pd.DataFrame(rows).sort_values("timestamp").reset_index(drop=True)\<close>\<close>

definition finish :: "string list \<Rightarrow> ('a row_scheme) list \<Rightarrow> error + ('a row_scheme) dataframe" where
  "finish keys rows =
     (case sort_values ''timestamp'' (DataFrame keys rows) of
        Inl e \<Rightarrow> Inl e
      | Inr df \<Rightarrow> Inr (reset_index_drop df))"

subsection \<open>generate\_match\_events\<close>

text \<open>A tournament window; \<open>hours\<close> is the pair of bounds of the source's \<^verbatim>\<open>range\<close>.\<close>

record window =
  days :: "int list"
  hours :: "int \<times> int"
  base :: rat
  prob :: rat

definition in_range :: "int \<Rightarrow> int \<times> int \<Rightarrow> bool" where
  "in_range h r = (fst r \<le> h \<and> h < snd r)"

definition windows :: "(string \<times> window) list" where
  "windows =
     [(''Brasileirao'', \<lparr>days = [2, 3], hours = (19, 22), base = 1.7, prob = 0.80\<rparr>),
      (''Champions League'', \<lparr>days = [2], hours = (15, 22), base = 2.1, prob = 0.65\<rparr>),
      (''Europa League'', \<lparr>days = [3], hours = (15, 22), base = 1.8, prob = 0.60\<rparr>),
      (''Libertadores'', \<lparr>days = [2, 3], hours = (19, 22), base = 1.9, prob = 0.75\<rparr>),
      (''Weekend matches'', \<lparr>days = [5, 6], hours = (16, 21), base = 2.0, prob = 0.85\<rparr>)]"

text \<open>The inner loop \<^verbatim>\<open>for tournament, cfg in windows.items()\<close>, at the hour \<open>ts\<close>.\<close>

fun match_windows_loop ::
  "timestamp \<Rightarrow> (string \<times> window) list \<Rightarrow> match_event list \<Rightarrow> rng \<Rightarrow> match_event list \<times> rng"
where
  "match_windows_loop ts [] rows g = (rows, g)"
| "match_windows_loop ts ((name, cfg) # ws) rows g =
     (if dayofweek ts \<in> set (days cfg) \<and> in_range (hour ts) (hours cfg) then
        (case random_rand g of (u, g1) \<Rightarrow>
           if u < prob cfg then
             (case random_normal (base cfg) 0.20 g1 of (x, g2) \<Rightarrow>
                match_windows_loop ts ws
                  (rows @ [\<lparr>timestamp = ts, tournament = name,
                            traffic_multiplier = clip x 1.0 3.2\<rparr>]) g2)
           else match_windows_loop ts ws rows g1)
      else match_windows_loop ts ws rows g)"

text \<open>The outer loop \<^verbatim>\<open>for ts in hours\<close>.\<close>

fun match_hours_loop ::
  "timestamp list \<Rightarrow> match_event list \<Rightarrow> rng \<Rightarrow> match_event list \<times> rng"
where
  "match_hours_loop [] rows g = (rows, g)"
| "match_hours_loop (ts # tss) rows g =
     (case match_windows_loop ts windows rows g of (rows', g') \<Rightarrow>
        match_hours_loop tss rows' g')"

definition match_keys :: "string list" where
  "match_keys = [''timestamp'', ''tournament'', ''traffic_multiplier'']"

definition generate_match_events ::
  "timestamp \<Rightarrow> timestamp \<Rightarrow> rng \<Rightarrow> error + (match_event dataframe \<times> rng)"
where
  "generate_match_events start_date end_date g =
     (case match_hours_loop (hours_between start_date end_date) [] g of (rows, g') \<Rightarrow>
        (case finish match_keys rows of
           Inl e \<Rightarrow> Inl e
         | Inr df \<Rightarrow> Inr (df, g')))"

subsection \<open>generate\_deploy\_events\<close>

definition base_rate :: "int \<Rightarrow> int \<Rightarrow> rat" where
  "base_rate dow h =
     (if dow \<le> 3 then
        (if 9 \<le> h \<and> h < 12 then 0.9
         else if 12 \<le> h \<and> h < 16 then 1.1
         else if 16 \<le> h \<and> h < 18 then 1.7
         else if 18 \<le> h \<and> h < 22 then 0.7
         else 0.08)
      else if dow = 4 then
        (if 10 \<le> h \<and> h < 15 then 0.55
         else if 15 \<le> h \<and> h < 17 then 1.0
         else if 17 \<le> h \<and> h < 20 then 0.45
         else 0.06)
      else 0.03)"

text \<open>The probability of a critical fix, lines 122 to 126: the two \<^verbatim>\<open>if\<close>s in sequence.\<close>

definition base_crit :: "int \<Rightarrow> int \<Rightarrow> rat" where
  "base_crit dow h =
     (let c0 = 0.07;
          c1 = (if dow \<ge> 5 then 0.22 else c0);
          c2 = (if dow = 4 \<and> 15 \<le> h \<and> h \<le> 18 then c1 + 0.10 else c1)
      in c2)"

text \<open>The inner loop \<^verbatim>\<open>for _ in range(n_deploys)\<close>, at the grid hour \<open>hour_ts\<close>.\<close>

fun deploy_rows_loop ::
  "nat \<Rightarrow> timestamp \<Rightarrow> deploy_event list \<Rightarrow> rng \<Rightarrow> deploy_event list \<times> rng"
where
  "deploy_rows_loop 0 hour_ts rows g = (rows, g)"
| "deploy_rows_loop (Suc n) hour_ts rows g =
     (case random_randint 0 60 g of (minute, g1) \<Rightarrow>
      case random_rand g1 of (u, g2) \<Rightarrow>
      let ts = hour_ts + Timedelta_minutes minute;
          crit = (u < base_crit (dayofweek hour_ts) (hour hour_ts))
      in case (if crit
               then random_choice [''small'', ''medium''] [0.70, 0.30] g2
               else random_choice [''small'', ''medium'', ''large''] [0.45, 0.40, 0.15] g2)
         of (sz, g3) \<Rightarrow>
           deploy_rows_loop n hour_ts
             (rows @ [\<lparr>timestamp = ts, is_critical_fix = crit, deploy_size = sz\<rparr>]) g3)"

text \<open>The outer loop \<^verbatim>\<open>for hour_ts in hours\<close>.\<close>

fun deploy_hours_loop ::
  "timestamp list \<Rightarrow> deploy_event list \<Rightarrow> rng \<Rightarrow> error + (deploy_event list \<times> rng)"
where
  "deploy_hours_loop [] rows g = Inr (rows, g)"
| "deploy_hours_loop (hour_ts # tss) rows g =
     (case random_poisson (base_rate (dayofweek hour_ts) (hour hour_ts)) g of
        Inl e \<Rightarrow> Inl e
      | Inr (n_deploys, g1) \<Rightarrow>
          (case deploy_rows_loop n_deploys hour_ts rows g1 of (rows', g2) \<Rightarrow>
             deploy_hours_loop tss rows' g2))"

definition deploy_keys :: "string list" where
  "deploy_keys = [''timestamp'', ''is_critical_fix'', ''deploy_size'']"

definition generate_deploy_events ::
  "timestamp \<Rightarrow> timestamp \<Rightarrow> rng \<Rightarrow> error + (deploy_event dataframe \<times> rng)"
where
  "generate_deploy_events start_date end_date g =
     (case deploy_hours_loop (hours_between start_date end_date) [] g of
        Inl e \<Rightarrow> Inl e
      | Inr (rows, g') \<Rightarrow>
          (case finish deploy_keys rows of
             Inl e \<Rightarrow> Inl e
           | Inr df \<Rightarrow> Inr (df, g')))"

subsection \<open>generate\_incidents\<close>

text \<open>
  The two input tables are read through their rows only (\<^verbatim>\<open>iterrows\<close>, column access),
  so each is the list of its rows; \<^verbatim>\<open>matches_df.empty\<close> is the list being empty.

  \<^verbatim>\<open>groupby("hour")["traffic_multiplier"].sum().sort_index()\<close>: one entry per
  distinct floored hour, in ascending order, holding the sum of the multipliers of the rows
  of that hour.
\<close>

definition groupby_hour_sum :: "match_event list \<Rightarrow> (timestamp \<times> rat) list" where
  "groupby_hour_sum ms =
     map (\<lambda>h. (h, sum_list (map traffic_multiplier
                               (filter (\<lambda>m. floor_h (timestamp m) = h) ms))))
         (sort (remdups (map (\<lambda>m. floor_h (timestamp m)) ms)))"

definition hourly_match :: "match_event list \<Rightarrow> (timestamp \<times> rat) list" where
  "hourly_match matches_df = (if matches_df = [] then [] else groupby_hour_sum matches_df)"

text \<open>\<^verbatim>\<open>series.reindex(labels, fill_value=v)\<close>: the values at the labels, \<open>v\<close> where the
  series has no such label.\<close>

definition reindex :: "(timestamp \<times> rat) list \<Rightarrow> timestamp list \<Rightarrow> rat \<Rightarrow> rat list" where
  "reindex s labels fill_value =
     map (\<lambda>l. case map_of s l of None \<Rightarrow> fill_value | Some v \<Rightarrow> v) labels"

text \<open>
  \<^verbatim>\<open>series.max()\<close>. Of an empty series pandas gives NaN, which the rationals do not
  have; the series of the source always has five entries (lemma \<open>near_hours_eq\<close> below).
\<close>

fun series_max :: "rat list \<Rightarrow> rat" where
  "series_max [] = 0"
| "series_max (x # xs) = fold max xs x"

definition near_hours :: "timestamp \<Rightarrow> timestamp list" where
  "near_hours hour_ts =
     date_range_h (hour_ts - Timedelta_hours 2) (hour_ts + Timedelta_hours 2)"

definition near_match_intensity :: "(timestamp \<times> rat) list \<Rightarrow> timestamp \<Rightarrow> rat" where
  "near_match_intensity hm ts = series_max (reindex hm (near_hours (floor_h ts)) 0.0)"

text \<open>Lines 179 to 193: the probability before the clip, each \<^verbatim>\<open>if\<close> in sequence.\<close>

definition incident_p_raw :: "deploy_event \<Rightarrow> rat \<Rightarrow> rat" where
  "incident_p_raw dep nmi =
     (let dow = dayofweek (timestamp dep);
          h = hour (timestamp dep);
          p0 = 0.010;
          p1 = (if 16 \<le> h \<and> h \<le> 18 then p0 + 0.040 else p0);
          p2 = (if dow = 2 \<or> dow = 3 then p1 + 0.010 else p1);
          p3 = (if dow = 4 \<and> 15 \<le> h \<and> h \<le> 18 then p2 + 0.025 else p2);
          p4 = (if is_critical_fix dep then p3 + 0.020 else p3);
          p5 = (if deploy_size dep = ''large'' then p4 + 0.030
                else if deploy_size dep = ''medium'' then p4 + 0.015 else p4)
      in p5 + min 0.08 (nmi * 0.02))"

text \<open>Line 194.\<close>

definition incident_p :: "deploy_event \<Rightarrow> rat \<Rightarrow> rat" where
  "incident_p dep nmi = clip (incident_p_raw dep nmi) 0.0 0.95"

definition deploy_severity :: "rat \<Rightarrow> string" where
  "deploy_severity p =
     (if p \<ge> 0.12 then ''high'' else if p \<ge> 0.07 then ''medium'' else ''low'')"

definition load_severity :: "rat \<Rightarrow> string" where
  "load_severity intensity =
     (if intensity \<ge> 4.5 then ''high'' else if intensity \<ge> 3.0 then ''medium'' else ''low'')"

text \<open>The loop \<^verbatim>\<open>for _, dep in deploys_df.iterrows()\<close>.\<close>

fun deploy_incidents_loop ::
  "(timestamp \<times> rat) list \<Rightarrow> deploy_event list \<Rightarrow> incident list \<Rightarrow> rng \<Rightarrow> incident list \<times> rng"
where
  "deploy_incidents_loop hm [] rows g = (rows, g)"
| "deploy_incidents_loop hm (dep # deps) rows g =
     (let ts = timestamp dep;
          p = incident_p dep (near_match_intensity hm ts)
      in case random_rand g of (u, g1) \<Rightarrow>
           if u < p then
             deploy_incidents_loop hm deps
               (rows @ [\<lparr>timestamp = ts, incident_type = ''deploy_incident'',
                         severity = deploy_severity p\<rparr>]) g1
           else deploy_incidents_loop hm deps rows g1)"

text \<open>The inner loop \<^verbatim>\<open>for _ in range(n_load)\<close>.\<close>

fun load_rows_loop ::
  "nat \<Rightarrow> timestamp \<Rightarrow> rat \<Rightarrow> incident list \<Rightarrow> rng \<Rightarrow> incident list \<times> rng"
where
  "load_rows_loop 0 hour_ts intensity rows g = (rows, g)"
| "load_rows_loop (Suc n) hour_ts intensity rows g =
     (case random_randint 0 60 g of (minute, g1) \<Rightarrow>
        load_rows_loop n hour_ts intensity
          (rows @ [\<lparr>timestamp = hour_ts + Timedelta_minutes minute,
                    incident_type = ''load_incident'',
                    severity = load_severity intensity\<rparr>]) g1)"

text \<open>The loop \<^verbatim>\<open>for hour_ts, intensity in hourly_match.items()\<close>.\<close>

fun load_hours_loop ::
  "(timestamp \<times> rat) list \<Rightarrow> incident list \<Rightarrow> rng \<Rightarrow> error + (incident list \<times> rng)"
where
  "load_hours_loop [] rows g = Inr (rows, g)"
| "load_hours_loop ((hour_ts, intensity) # rest) rows g =
     (case random_poisson (max 0.0 (0.03 * intensity)) g of
        Inl e \<Rightarrow> Inl e
      | Inr (n_load, g1) \<Rightarrow>
          (case load_rows_loop n_load hour_ts intensity rows g1 of (rows', g2) \<Rightarrow>
             load_hours_loop rest rows' g2))"

definition incident_keys :: "string list" where
  "incident_keys = [''timestamp'', ''incident_type'', ''severity'']"

text \<open>The rows collected by the two iterations, before the frame is built.\<close>

definition incident_rows ::
  "deploy_event list \<Rightarrow> match_event list \<Rightarrow> rng \<Rightarrow> error + (incident list \<times> rng)"
where
  "incident_rows deploys_df matches_df g =
     (let hm = hourly_match matches_df
      in case deploy_incidents_loop hm deploys_df [] g of (rows, g1) \<Rightarrow>
           load_hours_loop hm rows g1)"

definition generate_incidents ::
  "deploy_event list \<Rightarrow> match_event list \<Rightarrow> rng \<Rightarrow> error + (incident dataframe \<times> rng)"
where
  "generate_incidents deploys_df matches_df g =
     (case incident_rows deploys_df matches_df g of
        Inl e \<Rightarrow> Inl e
      | Inr (rows, g') \<Rightarrow>
          (case finish incident_keys rows of
             Inl e \<Rightarrow> Inl e
           | Inr df \<Rightarrow> Inr (df, g')))"

subsection \<open>The tables of the specification\<close>

text \<open>
  Day names, for the statements below: pandas numbers the days of the week from
  Monday = 0 to Sunday = 6.
\<close>

datatype day = Mon | Tue | Wed | Thu | Fri | Sat | Sun

definition day_name :: "int \<Rightarrow> day" where
  "day_name dow =
     (if dow = 0 then Mon else if dow = 1 then Tue else if dow = 2 then Wed
      else if dow = 3 then Thu else if dow = 4 then Fri else if dow = 5 then Sat else Sun)"

text \<open>The specification's table of Poisson rates, by day name and hour of the day.\<close>

definition rate_table :: "day \<Rightarrow> int \<Rightarrow> rat" where
  "rate_table d h =
     (if d \<in> {Mon, Tue, Wed, Thu} then
        (if h \<in> {9..11} then 0.9
         else if h \<in> {12..15} then 1.1
         else if h \<in> {16..17} then 1.7
         else if h \<in> {18..21} then 0.7
         else 0.08)
      else if d = Fri then
        (if h \<in> {10..14} then 0.55
         else if h \<in> {15..16} then 1.0
         else if h \<in> {17..19} then 0.45
         else 0.06)
      else 0.03)"

text \<open>The specification's criticality probability, by day name and hour of the day.\<close>

definition crit_table :: "day \<Rightarrow> int \<Rightarrow> rat" where
  "crit_table d h =
     (if d \<in> {Sat, Sun} then 0.22
      else if d = Fri \<and> h \<in> {15..18} then 0.07 + 0.10
      else 0.07)"



text \<open>
  The specification's nearby match intensity at the hour \<open>h\<close>: the largest, over the five
  hours from two before \<open>h\<close> to two after, of the sum of the multipliers of the match rows
  whose timestamp floors to that hour (a sum that is 0 when there is no such row).
\<close>

definition hour_intensity :: "match_event list \<Rightarrow> timestamp \<Rightarrow> rat" where
  "hour_intensity ms h =
     sum_list (map traffic_multiplier (filter (\<lambda>m. floor_h (timestamp m) = h) ms))"

definition window_intensity :: "match_event list \<Rightarrow> timestamp \<Rightarrow> rat" where
  "window_intensity ms h = Max ((\<lambda>k. hour_intensity ms (h + Timedelta_hours k)) ` {- 2 .. 2})"

subsection \<open>Example inputs\<close>

text \<open>
  Wednesday 1970-01-07 19:00, a deploy and a match on Thursday 1970-01-01 00:00, and an
  oracle whose first draw is 1 and whose later draws are 59.
\<close>

definition wed_19 :: timestamp where
  "wed_19 = 163 * ns_per_hour"

definition thu_deploy :: deploy_event where
  "thu_deploy = \<lparr>timestamp = 0, is_critical_fix = False, deploy_size = ''small''\<rparr>"

definition thu_match :: match_event where
  "thu_match = \<lparr>timestamp = 0, tournament = ''Libertadores'', traffic_multiplier = 2\<rparr>"

definition one_then_59 :: rng where
  "one_then_59 = (\<lambda>n. if n = 0 then 1 else 59)"


section \<open>Properties\<close>

subsection \<open>The library calls\<close>

lemma random_rand_range: "0 \<le> fst (random_rand g) \<and> fst (random_rand g) < 1"
  by (simp add: random_rand_def next_draw_def frac_lt_1)

lemma random_randint_minute:
  "0 \<le> fst (random_randint 0 60 g) \<and> fst (random_randint 0 60 g) < 60"
  by (simp add: random_randint_def next_draw_def)

lemma random_choice_critical:
  "fst (random_choice [''small'', ''medium''] [0.70, 0.30] g) \<in> {''small'', ''medium''}"
proof -
  have "fst (random_rand g) < 1" using random_rand_range by blast
  then show ?thesis
    by (cases "random_rand g") (auto simp: random_choice_def)
qed

lemma random_choice_regular:
  "fst (random_choice [''small'', ''medium'', ''large''] [0.45, 0.40, 0.15] g)
     \<in> {''small'', ''medium'', ''large''}"
proof -
  have "fst (random_rand g) < 1" using random_rand_range by blast
  then show ?thesis
    by (cases "random_rand g") (auto simp: random_choice_def)
qed

lemma clip_bounds: "lo \<le> hi \<Longrightarrow> lo \<le> clip a lo hi \<and> clip a lo hi \<le> hi"
  by (auto simp: clip_def)

lemma finish_Nil: "finish keys [] = Inl (KeyError ''timestamp'')"
  by (simp add: finish_def sort_values_def DataFrame_def)

lemma finish_Inr:
  assumes "finish keys rows = Inr df"
  shows "sorted (map timestamp (records df))"
    and "index df = [0 ..< length (records df)]"
    and "mset (records df) = mset rows"
    and "rows \<noteq> []"
proof -
  let ?ps = "sort_key (\<lambda>p. timestamp (snd p)) (zip [0 ..< length rows] rows)"
  from assms have ne: "rows \<noteq> []"
    by (auto simp: finish_def sort_values_def DataFrame_def split: if_splits sum.splits)
  from assms have rec: "records df = map snd ?ps"
    by (auto simp: finish_def sort_values_def DataFrame_def reset_index_drop_def Let_def
        split: if_splits sum.splits)
  from assms show "index df = [0 ..< length (records df)]"
    by (auto simp: finish_def sort_values_def DataFrame_def reset_index_drop_def Let_def
        split: if_splits sum.splits)
  have "map timestamp (map snd ?ps) = map (\<lambda>p. timestamp (snd p)) ?ps"
    by simp
  then show "sorted (map timestamp (records df))"
    using rec sorted_sort_key[of "\<lambda>p. timestamp (snd p)"] by metis
  have "map snd (zip [0 ..< length rows] rows) = rows"
    by (rule map_snd_zip) simp
  then have "mset (map snd (zip [0 ..< length rows] rows)) = mset rows"
    by simp
  then have "mset (map snd ?ps) = mset rows"
    by (simp only: mset_map mset_sort)
  then show "mset (records df) = mset rows" using rec by simp
  show "rows \<noteq> []" by (rule ne)
qed

lemma dayofweek_range: "0 \<le> dayofweek ts \<and> dayofweek ts \<le> 6"
  by (simp add: dayofweek_def)

lemma hour_range: "0 \<le> hour ts \<and> hour ts \<le> 23"
  by (simp add: hour_def)

subsection \<open>The hourly grid\<close>

lemma ns_per_hour_pos: "0 < ns_per_hour"
  by (simp add: ns_per_hour_def)

lemma date_range_h_mem:
  assumes "t \<in> set (date_range_h s e)"
  shows "s \<le> t" and "t \<le> s + ((e - s) div ns_per_hour) * ns_per_hour" and "t \<le> e"
    and "s \<le> e"
proof -
  from assms have se: "s \<le> e"
    by (auto simp: date_range_h_def split: if_splits)
  from assms se have "t \<in> (\<lambda>k. s + int k * ns_per_hour) ` {0 ..< Suc (nat ((e - s) div ns_per_hour))}"
    by (simp add: date_range_h_def Timedelta_hours_def del: upt_Suc)
  then obtain k where k: "k \<le> nat ((e - s) div ns_per_hour)"
    and t: "t = s + int k * ns_per_hour"
    by (metis (no_types, lifting) atLeastLessThan_iff imageE less_Suc_eq_le)
  have d: "0 \<le> (e - s) div ns_per_hour"
    using se ns_per_hour_pos by (simp add: pos_imp_zdiv_nonneg_iff)
  from k d have ki: "int k \<le> (e - s) div ns_per_hour" by linarith
  show "s \<le> t" using t ns_per_hour_pos by simp
  show g: "t \<le> s + ((e - s) div ns_per_hour) * ns_per_hour"
    using t ki ns_per_hour_pos by (simp add: mult_right_mono)
  have "((e - s) div ns_per_hour) * ns_per_hour \<le> e - s"
    using ns_per_hour_pos by (metis div_mult_mod_eq le_add_same_cancel1 pos_mod_sign)
  then show "t \<le> e" using g by linarith
  show "s \<le> e" by (rule se)
qed

lemma date_range_h_last:
  assumes "s \<le> e"
  shows "date_range_h s e \<noteq> []"
    and "last (date_range_h s e) = s + ((e - s) div ns_per_hour) * ns_per_hour"
proof -
  have d: "0 \<le> (e - s) div ns_per_hour"
    using assms ns_per_hour_pos by (simp add: pos_imp_zdiv_nonneg_iff)
  show "date_range_h s e \<noteq> []"
    using assms by (simp add: date_range_h_def)
  show "last (date_range_h s e) = s + ((e - s) div ns_per_hour) * ns_per_hour"
    using assms d by (simp add: date_range_h_def Timedelta_hours_def last_map)
qed

lemma near_hours_eq:
  "near_hours h = [h - 2 * ns_per_hour, h - ns_per_hour, h, h + ns_per_hour, h + 2 * ns_per_hour]"
proof -
  have "(h + 2 * ns_per_hour - (h - 2 * ns_per_hour)) div ns_per_hour = 4"
    by (simp add: ns_per_hour_def)
  moreover have "[0 ..< Suc (nat 4)] = [0, 1, 2, 3, 4]"
    by (simp add: upt_rec)
  ultimately show ?thesis
    using ns_per_hour_pos
    by (simp add: near_hours_def date_range_h_def Timedelta_hours_def)
qed

subsection \<open>The rows appended by each iteration\<close>

lemma match_windows_loop_rows:
  "\<exists>new. fst (match_windows_loop ts ws rows g) = rows @ new \<and>
         (\<forall>r \<in> set new. timestamp r = ts \<and> 1.0 \<le> traffic_multiplier r \<and>
                          traffic_multiplier r \<le> 3.2 \<and> tournament r \<in> fst ` set ws)"
proof (induction ws arbitrary: rows g)
  case Nil
  show ?case by simp
next
  case (Cons w ws)
  obtain name cfg where w: "w = (name, cfg)" by (cases w)
  obtain u g1 where u: "random_rand g = (u, g1)" by (cases "random_rand g")
  obtain x g2 where x: "random_normal (base cfg) 0.20 g1 = (x, g2)"
    by (cases "random_normal (base cfg) 0.20 g1")
  let ?r = "\<lparr>timestamp = ts, tournament = name, traffic_multiplier = clip x 1.0 3.2\<rparr>"
  have c: "1.0 \<le> clip x 1.0 3.2 \<and> clip x 1.0 3.2 \<le> 3.2"
    by (rule clip_bounds) simp
  consider (emit) "fst (match_windows_loop ts (w # ws) rows g)
                     = fst (match_windows_loop ts ws (rows @ [?r]) g2)"
    | (skip) g' where "fst (match_windows_loop ts (w # ws) rows g)
                     = fst (match_windows_loop ts ws rows g')"
    using w u x by (cases "dayofweek ts \<in> set (days cfg) \<and> in_range (hour ts) (hours cfg)";
        cases "u < prob cfg") auto
  then show ?case
  proof cases
    case emit
    from Cons.IH[of "rows @ [?r]" g2] obtain new where
      n: "fst (match_windows_loop ts ws (rows @ [?r]) g2) = (rows @ [?r]) @ new"
      and a: "\<forall>r \<in> set new. timestamp r = ts \<and> 1.0 \<le> traffic_multiplier r \<and>
                traffic_multiplier r \<le> 3.2 \<and> tournament r \<in> fst ` set ws"
      by blast
    have "fst (match_windows_loop ts (w # ws) rows g) = rows @ (?r # new)"
      using emit n by simp
    moreover have "\<forall>r \<in> set (?r # new). timestamp r = ts \<and> 1.0 \<le> traffic_multiplier r \<and>
                traffic_multiplier r \<le> 3.2 \<and> tournament r \<in> fst ` set (w # ws)"
      using a c w by auto
    ultimately show ?thesis by blast
  next
    case (skip g')
    from Cons.IH[of rows g'] obtain new where
      n: "fst (match_windows_loop ts ws rows g') = rows @ new"
      and a: "\<forall>r \<in> set new. timestamp r = ts \<and> 1.0 \<le> traffic_multiplier r \<and>
                traffic_multiplier r \<le> 3.2 \<and> tournament r \<in> fst ` set ws"
      by blast
    have "\<forall>r \<in> set new. timestamp r = ts \<and> 1.0 \<le> traffic_multiplier r \<and>
                traffic_multiplier r \<le> 3.2 \<and> tournament r \<in> fst ` set (w # ws)"
      using a by auto
    then show ?thesis using skip n by metis
  qed
qed

lemma match_hours_loop_rows:
  "\<exists>new. fst (match_hours_loop tss rows g) = rows @ new \<and>
         (\<forall>r \<in> set new. timestamp r \<in> set tss \<and> 1.0 \<le> traffic_multiplier r \<and>
                          traffic_multiplier r \<le> 3.2 \<and> tournament r \<in> fst ` set windows)"
proof (induction tss arbitrary: rows g)
  case Nil
  show ?case by simp
next
  case (Cons ts tss)
  obtain rows1 g1 where s: "match_windows_loop ts windows rows g = (rows1, g1)"
    by (cases "match_windows_loop ts windows rows g")
  from match_windows_loop_rows[of ts windows rows g] s obtain new1 where
    n1: "rows1 = rows @ new1"
    and a1: "\<forall>r \<in> set new1. timestamp r = ts \<and> 1.0 \<le> traffic_multiplier r \<and>
                traffic_multiplier r \<le> 3.2 \<and> tournament r \<in> fst ` set windows"
    by auto
  from Cons.IH[of rows1 g1] obtain new2 where
    n2: "fst (match_hours_loop tss rows1 g1) = rows1 @ new2"
    and a2: "\<forall>r \<in> set new2. timestamp r \<in> set tss \<and> 1.0 \<le> traffic_multiplier r \<and>
                traffic_multiplier r \<le> 3.2 \<and> tournament r \<in> fst ` set windows"
    by blast
  have "fst (match_hours_loop (ts # tss) rows g) = rows @ (new1 @ new2)"
    using s n1 n2 by simp
  moreover have "\<forall>r \<in> set (new1 @ new2). timestamp r \<in> set (ts # tss) \<and>
       1.0 \<le> traffic_multiplier r \<and> traffic_multiplier r \<le> 3.2 \<and>
       tournament r \<in> fst ` set windows"
    using a1 a2 by auto
  ultimately show ?case by blast
qed

lemma base_rate_pos: "0 < base_rate dow h"
  by (simp add: base_rate_def)

lemma random_poisson_Inr:
  "0 \<le> lam \<Longrightarrow> \<exists>n g'. random_poisson lam g = Inr (n, g')"
  by (simp add: random_poisson_def next_draw_def)

lemma Timedelta_minutes_bounds:
  "0 \<le> m \<Longrightarrow> m < 60 \<Longrightarrow> 0 \<le> Timedelta_minutes m \<and> Timedelta_minutes m \<le> Timedelta_minutes 59"
  by (simp add: Timedelta_minutes_def ns_per_minute_def)

lemma deploy_rows_loop_rows:
  "\<exists>new. fst (deploy_rows_loop n h rows g) = rows @ new \<and>
         (\<forall>r \<in> set new. h \<le> timestamp r \<and> timestamp r \<le> h + Timedelta_minutes 59 \<and>
                          deploy_size r \<in> {''small'', ''medium'', ''large''})"
proof (induction n arbitrary: rows g)
  case 0
  show ?case by simp
next
  case (Suc n)
  obtain minute g1 where m: "random_randint 0 60 g = (minute, g1)"
    by (cases "random_randint 0 60 g")
  obtain u g2 where u: "random_rand g1 = (u, g2)" by (cases "random_rand g1")
  define crit where "crit = (u < base_crit (dayofweek h) (hour h))"
  define ch where "ch = (if crit
               then random_choice [''small'', ''medium''] [0.70, 0.30] g2
               else random_choice [''small'', ''medium'', ''large''] [0.45, 0.40, 0.15] g2)"
  obtain sz g3 where c: "ch = (sz, g3)" by (cases ch)
  let ?r = "\<lparr>timestamp = h + Timedelta_minutes minute, is_critical_fix = crit, deploy_size = sz\<rparr>"
  have step: "deploy_rows_loop (Suc n) h rows g = deploy_rows_loop n h (rows @ [?r]) g3"
    using m u c by (simp add: crit_def ch_def Let_def)
  have "0 \<le> minute \<and> minute < 60"
    using random_randint_minute[of g] m by simp
  then have t: "0 \<le> Timedelta_minutes minute \<and> Timedelta_minutes minute \<le> Timedelta_minutes 59"
    using Timedelta_minutes_bounds by blast
  have "fst ch \<in> {''small'', ''medium'', ''large''}"
    using random_choice_critical[of g2] random_choice_regular[of g2]
    by (cases crit) (auto simp: ch_def)
  then have z: "sz \<in> {''small'', ''medium'', ''large''}" using c by simp
  from Suc.IH[of "rows @ [?r]" g3] obtain new where
    n: "fst (deploy_rows_loop n h (rows @ [?r]) g3) = (rows @ [?r]) @ new"
    and a: "\<forall>r \<in> set new. h \<le> timestamp r \<and> timestamp r \<le> h + Timedelta_minutes 59 \<and>
                          deploy_size r \<in> {''small'', ''medium'', ''large''}"
    by blast
  have "fst (deploy_rows_loop (Suc n) h rows g) = rows @ (?r # new)"
    using step n by simp
  moreover have "\<forall>r \<in> set (?r # new). h \<le> timestamp r \<and>
       timestamp r \<le> h + Timedelta_minutes 59 \<and>
       deploy_size r \<in> {''small'', ''medium'', ''large''}"
    using a t z by auto
  ultimately show ?case by blast
qed

lemma deploy_hours_loop_rows:
  "\<exists>new g'. deploy_hours_loop tss rows g = Inr (rows @ new, g') \<and>
         (\<forall>r \<in> set new. (\<exists>h \<in> set tss. h \<le> timestamp r \<and>
                              timestamp r \<le> h + Timedelta_minutes 59) \<and>
                          deploy_size r \<in> {''small'', ''medium'', ''large''})"
proof (induction tss arbitrary: rows g)
  case Nil
  show ?case by simp
next
  case (Cons h tss)
  have "0 \<le> base_rate (dayofweek h) (hour h)"
    using base_rate_pos[of "dayofweek h" "hour h"] by simp
  then obtain n g1 where p: "random_poisson (base_rate (dayofweek h) (hour h)) g = Inr (n, g1)"
    using random_poisson_Inr by blast
  obtain rows1 g2 where s: "deploy_rows_loop n h rows g1 = (rows1, g2)"
    by (cases "deploy_rows_loop n h rows g1")
  from deploy_rows_loop_rows[of n h rows g1] s obtain new1 where
    n1: "rows1 = rows @ new1"
    and a1: "\<forall>r \<in> set new1. h \<le> timestamp r \<and> timestamp r \<le> h + Timedelta_minutes 59 \<and>
                          deploy_size r \<in> {''small'', ''medium'', ''large''}"
    by auto
  from Cons.IH[of rows1 g2] obtain new2 g' where
    n2: "deploy_hours_loop tss rows1 g2 = Inr (rows1 @ new2, g')"
    and a2: "\<forall>r \<in> set new2. (\<exists>h \<in> set tss. h \<le> timestamp r \<and>
                              timestamp r \<le> h + Timedelta_minutes 59) \<and>
                          deploy_size r \<in> {''small'', ''medium'', ''large''}"
    by blast
  have "deploy_hours_loop (h # tss) rows g = Inr (rows @ (new1 @ new2), g')"
    using p s n1 n2 by simp
  moreover have "\<forall>r \<in> set (new1 @ new2). (\<exists>h' \<in> set (h # tss). h' \<le> timestamp r \<and>
                              timestamp r \<le> h' + Timedelta_minutes 59) \<and>
                          deploy_size r \<in> {''small'', ''medium'', ''large''}"
    using a1 a2 by auto
  ultimately show ?case by blast
qed

lemma deploy_incidents_loop_rows:
  "\<exists>new. fst (deploy_incidents_loop hm deps rows g) = rows @ new \<and>
         (\<forall>r \<in> set new. \<exists>dep \<in> set deps.
             timestamp r = timestamp dep \<and> incident_type r = ''deploy_incident'' \<and>
             severity r = deploy_severity
                            (incident_p dep (near_match_intensity hm (timestamp dep))))"
proof (induction deps arbitrary: rows g)
  case Nil
  show ?case by simp
next
  case (Cons dep deps)
  obtain u g1 where u: "random_rand g = (u, g1)" by (cases "random_rand g")
  define p where "p = incident_p dep (near_match_intensity hm (timestamp dep))"
  let ?r = "\<lparr>timestamp = timestamp dep, incident_type = ''deploy_incident'',
             severity = deploy_severity p\<rparr>"
  define rows1 where "rows1 = (if u < p then rows @ [?r] else rows)"
  define new1 where "new1 = (if u < p then [?r] else [])"
  have step: "deploy_incidents_loop hm (dep # deps) rows g = deploy_incidents_loop hm deps rows1 g1"
    using u by (simp add: p_def rows1_def Let_def)
  have r1: "rows1 = rows @ new1" by (simp add: rows1_def new1_def)
  from Cons.IH[of rows1 g1] obtain new where
    n: "fst (deploy_incidents_loop hm deps rows1 g1) = rows1 @ new"
    and a: "\<forall>r \<in> set new. \<exists>dep \<in> set deps.
             timestamp r = timestamp dep \<and> incident_type r = ''deploy_incident'' \<and>
             severity r = deploy_severity
                            (incident_p dep (near_match_intensity hm (timestamp dep)))"
    by blast
  have "fst (deploy_incidents_loop hm (dep # deps) rows g) = rows @ (new1 @ new)"
    using step n r1 by simp
  moreover have "\<forall>r \<in> set (new1 @ new). \<exists>d \<in> set (dep # deps).
             timestamp r = timestamp d \<and> incident_type r = ''deploy_incident'' \<and>
             severity r = deploy_severity
                            (incident_p d (near_match_intensity hm (timestamp d)))"
    using a by (auto simp: new1_def p_def)
  ultimately show ?case by blast
qed

lemma load_rows_loop_rows:
  "\<exists>new. fst (load_rows_loop n h i rows g) = rows @ new \<and>
         (\<forall>r \<in> set new. h \<le> timestamp r \<and> timestamp r \<le> h + Timedelta_minutes 59 \<and>
             incident_type r = ''load_incident'' \<and> severity r = load_severity i)"
proof (induction n arbitrary: rows g)
  case 0
  show ?case by simp
next
  case (Suc n)
  obtain minute g1 where m: "random_randint 0 60 g = (minute, g1)"
    by (cases "random_randint 0 60 g")
  let ?r = "\<lparr>timestamp = h + Timedelta_minutes minute, incident_type = ''load_incident'',
             severity = load_severity i\<rparr>"
  have step: "load_rows_loop (Suc n) h i rows g = load_rows_loop n h i (rows @ [?r]) g1"
    using m by simp
  have "0 \<le> minute \<and> minute < 60"
    using random_randint_minute[of g] m by simp
  then have t: "0 \<le> Timedelta_minutes minute \<and> Timedelta_minutes minute \<le> Timedelta_minutes 59"
    using Timedelta_minutes_bounds by blast
  from Suc.IH[of "rows @ [?r]" g1] obtain new where
    n: "fst (load_rows_loop n h i (rows @ [?r]) g1) = (rows @ [?r]) @ new"
    and a: "\<forall>r \<in> set new. h \<le> timestamp r \<and> timestamp r \<le> h + Timedelta_minutes 59 \<and>
             incident_type r = ''load_incident'' \<and> severity r = load_severity i"
    by blast
  have "fst (load_rows_loop (Suc n) h i rows g) = rows @ (?r # new)"
    using step n by simp
  moreover have "\<forall>r \<in> set (?r # new). h \<le> timestamp r \<and>
       timestamp r \<le> h + Timedelta_minutes 59 \<and>
       incident_type r = ''load_incident'' \<and> severity r = load_severity i"
    using a t by auto
  ultimately show ?case by blast
qed

lemma load_hours_loop_rows:
  "\<exists>new g'. load_hours_loop hm rows g = Inr (rows @ new, g') \<and>
         (\<forall>r \<in> set new. \<exists>(h, i) \<in> set hm. h \<le> timestamp r \<and>
             timestamp r \<le> h + Timedelta_minutes 59 \<and>
             incident_type r = ''load_incident'' \<and> severity r = load_severity i)"
proof (induction hm arbitrary: rows g)
  case Nil
  show ?case by simp
next
  case (Cons e hm)
  obtain h i where e: "e = (h, i)" by (cases e)
  have "(0::rat) \<le> max 0.0 (0.03 * i)" by simp
  then obtain n g1 where p: "random_poisson (max 0.0 (0.03 * i)) g = Inr (n, g1)"
    using random_poisson_Inr by blast
  obtain rows1 g2 where s: "load_rows_loop n h i rows g1 = (rows1, g2)"
    by (cases "load_rows_loop n h i rows g1")
  from load_rows_loop_rows[of n h i rows g1] s obtain new1 where
    n1: "rows1 = rows @ new1"
    and a1: "\<forall>r \<in> set new1. h \<le> timestamp r \<and> timestamp r \<le> h + Timedelta_minutes 59 \<and>
             incident_type r = ''load_incident'' \<and> severity r = load_severity i"
    by auto
  from Cons.IH[of rows1 g2] obtain new2 g' where
    n2: "load_hours_loop hm rows1 g2 = Inr (rows1 @ new2, g')"
    and a2: "\<forall>r \<in> set new2. \<exists>(h, i) \<in> set hm. h \<le> timestamp r \<and>
             timestamp r \<le> h + Timedelta_minutes 59 \<and>
             incident_type r = ''load_incident'' \<and> severity r = load_severity i"
    by blast
  have "load_hours_loop (e # hm) rows g = Inr (rows @ (new1 @ new2), g')"
    using e p s n1 n2 by simp
  moreover have "\<forall>r \<in> set (new1 @ new2). \<exists>(h, i) \<in> set (e # hm). h \<le> timestamp r \<and>
             timestamp r \<le> h + Timedelta_minutes 59 \<and>
             incident_type r = ''load_incident'' \<and> severity r = load_severity i"
    using a1 a2 e by auto
  ultimately show ?case by blast
qed

subsection \<open>Days and hours\<close>

lemma day_name_cases:
  "day_name (dayofweek ts) = Mon \<and> dayofweek ts = 0 \<or>
   day_name (dayofweek ts) = Tue \<and> dayofweek ts = 1 \<or>
   day_name (dayofweek ts) = Wed \<and> dayofweek ts = 2 \<or>
   day_name (dayofweek ts) = Thu \<and> dayofweek ts = 3 \<or>
   day_name (dayofweek ts) = Fri \<and> dayofweek ts = 4 \<or>
   day_name (dayofweek ts) = Sat \<and> dayofweek ts = 5 \<or>
   day_name (dayofweek ts) = Sun \<and> dayofweek ts = 6"
proof -
  have "0 \<le> dayofweek ts \<and> dayofweek ts \<le> 6" by (rule dayofweek_range)
  then have "dayofweek ts = 0 \<or> dayofweek ts = 1 \<or> dayofweek ts = 2 \<or> dayofweek ts = 3
     \<or> dayofweek ts = 4 \<or> dayofweek ts = 5 \<or> dayofweek ts = 6" by linarith
  then show ?thesis by (elim disjE) (simp_all add: day_name_def)
qed

lemma hour_ranges:
  fixes h :: int
  shows "h \<in> {9..11} \<longleftrightarrow> 9 \<le> h \<and> h < 12"
    and "h \<in> {12..15} \<longleftrightarrow> 12 \<le> h \<and> h < 16"
    and "h \<in> {16..17} \<longleftrightarrow> 16 \<le> h \<and> h < 18"
    and "h \<in> {18..21} \<longleftrightarrow> 18 \<le> h \<and> h < 22"
    and "h \<in> {10..14} \<longleftrightarrow> 10 \<le> h \<and> h < 15"
    and "h \<in> {15..16} \<longleftrightarrow> 15 \<le> h \<and> h < 17"
    and "h \<in> {17..19} \<longleftrightarrow> 17 \<le> h \<and> h < 20"
  by auto


subsection \<open>The hourly match intensity\<close>

lemma hour_intensity_absent:
  "h \<notin> (\<lambda>m. floor_h (timestamp m)) ` set ms \<Longrightarrow> hour_intensity ms h = 0"
proof -
  assume "h \<notin> (\<lambda>m. floor_h (timestamp m)) ` set ms"
  then have "filter (\<lambda>m. floor_h (timestamp m) = h) ms = []"
    by (auto simp: filter_empty_conv)
  then show ?thesis by (simp add: hour_intensity_def)
qed

lemma map_of_groupby_hour_sum:
  "map_of (groupby_hour_sum ms) h =
     (if h \<in> (\<lambda>m. floor_h (timestamp m)) ` set ms then Some (hour_intensity ms h) else None)"
proof -
  have "map_of (map (\<lambda>k. (k, hour_intensity ms k)) ks) h =
          (if h \<in> set ks then Some (hour_intensity ms h) else None)" for ks
    by (induction ks) auto
  then show ?thesis
    by (simp add: groupby_hour_sum_def hour_intensity_def)
qed

lemma reindex_hourly_match:
  "reindex (hourly_match ms) labels 0 = map (hour_intensity ms) labels"
proof (cases "ms = []")
  case True
  then show ?thesis
    by (simp add: reindex_def hourly_match_def hour_intensity_def)
next
  case False
  then show ?thesis
    by (simp add: reindex_def hourly_match_def map_of_groupby_hour_sum hour_intensity_absent)
qed

lemma series_max_Max: "xs \<noteq> [] \<Longrightarrow> series_max xs = Max (set xs)"
proof (cases xs)
  case Nil
  assume "xs \<noteq> []"
  with Nil show ?thesis by simp
next
  case (Cons x xs')
  have "fold max ys y = Max (set (y # ys))" for y :: rat and ys
    using Max.set_eq_fold[of y ys] by simp
  with Cons show ?thesis by simp
qed

lemma window_offsets: "{- 2 .. 2 :: int} = {- 2, - 1, 0, 1, 2}"
  by auto

lemma near_match_intensity_window:
  "near_match_intensity (hourly_match ms) ts = window_intensity ms (floor_h ts)"
proof -
  let ?h = "floor_h ts"
  have "near_match_intensity (hourly_match ms) ts
          = series_max (map (hour_intensity ms) (near_hours ?h))"
    by (simp add: near_match_intensity_def reindex_hourly_match)
  also have "\<dots> = Max (set (map (hour_intensity ms) (near_hours ?h)))"
    by (rule series_max_Max) (simp add: near_hours_eq)
  also have "set (map (hour_intensity ms) (near_hours ?h))
               = (\<lambda>k. hour_intensity ms (?h + Timedelta_hours k)) ` {- 2 .. 2}"
    by (simp add: near_hours_eq window_offsets Timedelta_hours_def)
  finally show ?thesis by (simp add: window_intensity_def)
qed

subsection \<open>The rows of the returned tables\<close>

lemma finish_set: "finish keys rows = Inr df \<Longrightarrow> set (records df) = set rows"
  using finish_Inr(3) mset_eq_setD by blast

lemma generate_match_events_records:
  assumes "generate_match_events s e g = Inr (df, g')"
  shows "\<forall>r \<in> set (records df). timestamp r \<in> set (hours_between s e) \<and>
           1.0 \<le> traffic_multiplier r \<and> traffic_multiplier r \<le> 3.2 \<and>
           tournament r \<in> fst ` set windows"
proof -
  obtain rows g1 where l: "match_hours_loop (hours_between s e) [] g = (rows, g1)"
    by (cases "match_hours_loop (hours_between s e) [] g")
  with assms have f: "finish match_keys rows = Inr df"
    by (auto simp: generate_match_events_def split: sum.splits)
  from match_hours_loop_rows[of "hours_between s e" "[]" g] l
  have "\<forall>r \<in> set rows. timestamp r \<in> set (hours_between s e) \<and>
           1.0 \<le> traffic_multiplier r \<and> traffic_multiplier r \<le> 3.2 \<and>
           tournament r \<in> fst ` set windows"
    by auto
  then show ?thesis using finish_set[OF f] by simp
qed

lemma generate_deploy_events_records:
  assumes "generate_deploy_events s e g = Inr (df, g')"
  shows "\<forall>r \<in> set (records df).
           (\<exists>h \<in> set (hours_between s e). h \<le> timestamp r \<and>
               timestamp r \<le> h + Timedelta_minutes 59) \<and>
           deploy_size r \<in> {''small'', ''medium'', ''large''}"
proof -
  from deploy_hours_loop_rows[of "hours_between s e" "[]" g] obtain rows g1 where
    l: "deploy_hours_loop (hours_between s e) [] g = Inr (rows, g1)"
    and a: "\<forall>r \<in> set rows. (\<exists>h \<in> set (hours_between s e). h \<le> timestamp r \<and>
               timestamp r \<le> h + Timedelta_minutes 59) \<and>
           deploy_size r \<in> {''small'', ''medium'', ''large''}"
    by auto
  from l assms have f: "finish deploy_keys rows = Inr df"
    by (auto simp: generate_deploy_events_def split: sum.splits)
  show ?thesis using a finish_set[OF f] by simp
qed

lemma incident_rows_rows:
  "\<exists>rows g'. incident_rows deploys_df matches_df g = Inr (rows, g') \<and>
     (\<forall>r \<in> set rows.
        (\<exists>dep \<in> set deploys_df.
           timestamp r = timestamp dep \<and> incident_type r = ''deploy_incident'' \<and>
           severity r = deploy_severity
             (incident_p dep (near_match_intensity (hourly_match matches_df) (timestamp dep)))) \<or>
        (\<exists>(h, i) \<in> set (hourly_match matches_df).
           h \<le> timestamp r \<and> timestamp r \<le> h + Timedelta_minutes 59 \<and>
           incident_type r = ''load_incident'' \<and> severity r = load_severity i))"
proof -
  let ?hm = "hourly_match matches_df"
  obtain rows1 g1 where l1: "deploy_incidents_loop ?hm deploys_df [] g = (rows1, g1)"
    by (cases "deploy_incidents_loop ?hm deploys_df [] g")
  from deploy_incidents_loop_rows[of ?hm deploys_df "[]" g] l1
  have a1: "\<forall>r \<in> set rows1. \<exists>dep \<in> set deploys_df.
           timestamp r = timestamp dep \<and> incident_type r = ''deploy_incident'' \<and>
           severity r = deploy_severity
             (incident_p dep (near_match_intensity ?hm (timestamp dep)))"
    by auto
  from load_hours_loop_rows[of ?hm rows1 g1] obtain new g2 where
    l2: "load_hours_loop ?hm rows1 g1 = Inr (rows1 @ new, g2)"
    and a2: "\<forall>r \<in> set new. \<exists>(h, i) \<in> set ?hm. h \<le> timestamp r \<and>
             timestamp r \<le> h + Timedelta_minutes 59 \<and>
             incident_type r = ''load_incident'' \<and> severity r = load_severity i"
    by blast
  have "incident_rows deploys_df matches_df g = Inr (rows1 @ new, g2)"
    using l1 l2 by (simp add: incident_rows_def)
  moreover have "\<forall>r \<in> set (rows1 @ new).
        (\<exists>dep \<in> set deploys_df.
           timestamp r = timestamp dep \<and> incident_type r = ''deploy_incident'' \<and>
           severity r = deploy_severity
             (incident_p dep (near_match_intensity ?hm (timestamp dep)))) \<or>
        (\<exists>(h, i) \<in> set ?hm.
           h \<le> timestamp r \<and> timestamp r \<le> h + Timedelta_minutes 59 \<and>
           incident_type r = ''load_incident'' \<and> severity r = load_severity i)"
    using a1 a2 by auto
  ultimately show ?thesis by blast
qed

lemma generate_incidents_records:
  assumes "generate_incidents deploys_df matches_df g = Inr (df, g')"
  shows "\<forall>r \<in> set (records df).
        (\<exists>dep \<in> set deploys_df.
           timestamp r = timestamp dep \<and> incident_type r = ''deploy_incident'' \<and>
           severity r = deploy_severity
             (incident_p dep (near_match_intensity (hourly_match matches_df) (timestamp dep)))) \<or>
        (\<exists>(h, i) \<in> set (hourly_match matches_df).
           h \<le> timestamp r \<and> timestamp r \<le> h + Timedelta_minutes 59 \<and>
           incident_type r = ''load_incident'' \<and> severity r = load_severity i)"
proof -
  from incident_rows_rows[of deploys_df matches_df g] obtain rows g1 where
    l: "incident_rows deploys_df matches_df g = Inr (rows, g1)"
    and a: "\<forall>r \<in> set rows.
        (\<exists>dep \<in> set deploys_df.
           timestamp r = timestamp dep \<and> incident_type r = ''deploy_incident'' \<and>
           severity r = deploy_severity
             (incident_p dep (near_match_intensity (hourly_match matches_df) (timestamp dep)))) \<or>
        (\<exists>(h, i) \<in> set (hourly_match matches_df).
           h \<le> timestamp r \<and> timestamp r \<le> h + Timedelta_minutes 59 \<and>
           incident_type r = ''load_incident'' \<and> severity r = load_severity i)"
    by blast
  from l assms have f: "finish incident_keys rows = Inr df"
    by (auto simp: generate_incidents_def split: sum.splits)
  show ?thesis using a finish_set[OF f] by simp
qed

lemma deploy_severity_domain: "deploy_severity p \<in> {''low'', ''medium'', ''high''}"
  by (simp add: deploy_severity_def)

lemma load_severity_domain: "load_severity i \<in> {''low'', ''medium'', ''high''}"
  by (simp add: load_severity_def)

subsection \<open>Concrete runs\<close>

lemma run_match:
  "\<exists>df g'. generate_match_events wed_19 wed_19 (\<lambda>n. 0) = Inr (df, g') \<and> length (records df) = 3"
proof -
  let ?x = "generate_match_events wed_19 wed_19 (\<lambda>n. 0)"
  have "\<not> isl ?x \<and> length (records (fst (projr ?x))) = 3" by code_simp
  then show ?thesis by (cases ?x) auto
qed

lemma run_deploy:
  "\<exists>df g'. generate_deploy_events 0 0 one_then_59 = Inr (df, g') \<and>
      map timestamp (records df) = [Timedelta_minutes 59]"
proof -
  let ?x = "generate_deploy_events 0 0 one_then_59"
  have "\<not> isl ?x \<and> map timestamp (records (fst (projr ?x))) = [Timedelta_minutes 59]"
    by code_simp
  then show ?thesis by (cases ?x) auto
qed

lemma run_deploy_incident:
  "\<exists>df g'. generate_incidents [thu_deploy] [] (\<lambda>n. 0) = Inr (df, g') \<and>
      map incident_type (records df) = [''deploy_incident'']"
proof -
  let ?x = "generate_incidents [thu_deploy] [] (\<lambda>n. 0)"
  have "\<not> isl ?x \<and> map incident_type (records (fst (projr ?x))) = [''deploy_incident'']"
    by code_simp
  then show ?thesis by (cases ?x) auto
qed

lemma run_load_incident:
  "\<exists>df g'. generate_incidents [] [thu_match] one_then_59 = Inr (df, g') \<and>
      map incident_type (records df) = [''load_incident''] \<and>
      map timestamp (records df) = [Timedelta_minutes 59]"
proof -
  let ?x = "generate_incidents [] [thu_match] one_then_59"
  have "\<not> isl ?x \<and> map incident_type (records (fst (projr ?x))) = [''load_incident''] \<and>
     map timestamp (records (fst (projr ?x))) = [Timedelta_minutes 59]"
    by code_simp
  then show ?thesis by (cases ?x) auto
qed

subsection \<open>Bounds\<close>

lemma hours_between_single: "hours_between s s = [s]"
  by (simp add: hours_between_def date_range_h_def Timedelta_hours_def)

lemma hours_between_empty: "e < s \<Longrightarrow> hours_between s e = []"
  by (simp add: hours_between_def date_range_h_def)

lemma near_match_intensity_empty: "near_match_intensity (hourly_match []) ts = 0"
  by (simp add: near_match_intensity_def hourly_match_def reindex_def near_hours_eq)

lemma hourly_match_keys:
  "(h, i) \<in> set (hourly_match ms) \<Longrightarrow> \<exists>m \<in> set ms. h = floor_h (timestamp m)"
  by (auto simp: hourly_match_def groupby_hour_sum_def split: if_splits)

lemma hours_between_mem:
  assumes "h \<in> set (hours_between s e)"
  shows "s \<le> h" and "h \<le> last (hours_between s e)" and "last (hours_between s e) \<le> e"
proof -
  from assms have m: "h \<in> set (date_range_h s e)" by (simp add: hours_between_def)
  have se: "s \<le> e" using m by (rule date_range_h_mem(4))
  show "s \<le> h" using m by (rule date_range_h_mem(1))
  show "h \<le> last (hours_between s e)"
    using date_range_h_mem(2)[OF m] date_range_h_last(2)[OF se]
    by (simp add: hours_between_def)
  have "last (date_range_h s e) \<in> set (date_range_h s e)"
    using date_range_h_last(1)[OF se] by simp
  then show "last (hours_between s e) \<le> e"
    using date_range_h_mem(3) by (simp add: hours_between_def)
qed




section \<open>The claims\<close>

text \<open>
  C1. The specification says that a date range with no hour in it (the end before the
  start) makes each generator return an empty table without an error. The code does not:
  no row is collected, the frame built from the empty list has no \<^verbatim>\<open>timestamp\<close>
  column, and \<^verbatim>\<open>sort_values("timestamp")\<close> raises \<^verbatim>\<open>KeyError\<close>. The same holds
  for a range of one hour in which no tournament plays (start and end both Monday
  1970-01-05 00:00), and for \<^verbatim>\<open>generate_incidents\<close> on two empty tables.
\<close>

theorem empty_range_raises:
  "(end_date < start_date \<longrightarrow>
      generate_match_events start_date end_date g = Inl (KeyError ''timestamp'') \<and>
      generate_deploy_events start_date end_date g = Inl (KeyError ''timestamp'')) \<and>
   generate_match_events (96 * ns_per_hour) (96 * ns_per_hour) g = Inl (KeyError ''timestamp'') \<and>
   generate_incidents [] [] g = Inl (KeyError ''timestamp'')"
proof -
  have d: "dayofweek (96 * ns_per_hour) = 0"
    by (simp add: dayofweek_def ns_per_hour_def ns_per_day_def)
  have "match_windows_loop (96 * ns_per_hour) windows [] g = ([], g)"
    by (simp add: windows_def d)
  then have "generate_match_events (96 * ns_per_hour) (96 * ns_per_hour) g
               = Inl (KeyError ''timestamp'')"
    by (simp add: generate_match_events_def hours_between_single finish_Nil)
  then show ?thesis
    by (simp add: generate_match_events_def generate_deploy_events_def generate_incidents_def
        incident_rows_def hourly_match_def hours_between_empty finish_Nil)
qed

theorem empty_range_raises_witness:
  "(0::int) < ns_per_hour \<and>
   generate_match_events ns_per_hour 0 (\<lambda>n. 0) = Inl (KeyError ''timestamp'') \<and>
   generate_deploy_events ns_per_hour 0 (\<lambda>n. 0) = Inl (KeyError ''timestamp'') \<and>
   generate_incidents [] [] (\<lambda>n. 0) = Inl (KeyError ''timestamp'')"
  using empty_range_raises[of 0 ns_per_hour "\<lambda>n. 0"] by (simp add: ns_per_hour_def)




text \<open>
  C3. For a deploy row \<open>dep\<close>, the nearby match intensity that \<^verbatim>\<open>generate_incidents\<close>
  computes is the largest, over the five hours from two before to two after the floored
  hour of the deploy, of the sum of \<^verbatim>\<open>traffic_multiplier\<close> over the match rows whose
  timestamp floors to that hour; an hour with no match row has the empty sum, 0.
\<close>

theorem nearby_match_intensity_window:
  "near_match_intensity (hourly_match matches_df) (timestamp dep) =
     Max ((\<lambda>k. sum_list (map traffic_multiplier
                   (filter (\<lambda>m. floor_h (timestamp m)
                                  = floor_h (timestamp dep) + Timedelta_hours k) matches_df)))
          ` {- 2 .. 2})"
  by (simp add: near_match_intensity_window window_intensity_def hour_intensity_def)

text \<open>
  C4. At every hour \<open>ts\<close> of the grid, the Poisson rate that \<^verbatim>\<open>generate_deploy_events\<close>
  uses, \<open>base_rate (dayofweek ts) (hour ts)\<close>, is the entry of the specification's table
  for the day name and the hour of \<open>ts\<close>. In particular Monday 1970-01-05 17:00, which is
  113 hours after the epoch, has the rate 1.7.
\<close>

theorem deploy_rate_table:
  "base_rate (dayofweek ts) (hour ts) = rate_table (day_name (dayofweek ts)) (hour ts) \<and>
   day_name (dayofweek (113 * ns_per_hour)) = Mon \<and> hour (113 * ns_per_hour) = 17 \<and>
   base_rate (dayofweek (113 * ns_per_hour)) (hour (113 * ns_per_hour)) = 1.7"
proof -
  have "base_rate (dayofweek ts) (hour ts) = rate_table (day_name (dayofweek ts)) (hour ts)"
    using day_name_cases[of ts]
    by (elim disjE conjE) (simp_all only: base_rate_def rate_table_def hour_ranges, simp_all)
  moreover have "dayofweek (113 * ns_per_hour) = 0 \<and> hour (113 * ns_per_hour) = 17"
    by (simp add: dayofweek_def hour_def ns_per_hour_def ns_per_day_def)
  ultimately show ?thesis
    by (simp add: day_name_def base_rate_def)
qed

text \<open>
  C5. At every grid hour \<open>ts\<close>, the probability against which the deploy loop draws
  \<^verbatim>\<open>is_critical_fix\<close>, \<open>base_crit (dayofweek ts) (hour ts)\<close>, is 0.22 on Saturday and
  Sunday, 0.07 + 0.10 on Friday from 15 to 18 inclusive, and 0.07 otherwise.
\<close>

theorem critical_fix_probability:
  "base_crit (dayofweek ts) (hour ts) = crit_table (day_name (dayofweek ts)) (hour ts)"
  using day_name_cases[of ts]
  by (elim disjE conjE) (auto simp: base_crit_def crit_table_def Let_def)



text \<open>
  C7. In every returned table the fields are in their domains: a match row's
  \<^verbatim>\<open>traffic_multiplier\<close> is in \<open>[1.0, 3.2]\<close>, a deploy row's \<^verbatim>\<open>deploy_size\<close> is
  small, medium or large, an incident row's \<^verbatim>\<open>severity\<close> is low, medium or high and its
  \<^verbatim>\<open>incident_type\<close> is \<^verbatim>\<open>deploy_incident\<close> or \<^verbatim>\<open>load_incident\<close>.
\<close>

theorem field_domains:
  "(generate_match_events s e g = Inr (mdf, g1) \<longrightarrow>
      (\<forall>r \<in> set (records mdf). 1.0 \<le> traffic_multiplier r \<and> traffic_multiplier r \<le> 3.2)) \<and>
   (generate_deploy_events s e g = Inr (ddf, g2) \<longrightarrow>
      (\<forall>r \<in> set (records ddf). deploy_size r \<in> {''small'', ''medium'', ''large''})) \<and>
   (generate_incidents deploys_df matches_df g = Inr (idf, g3) \<longrightarrow>
      (\<forall>r \<in> set (records idf).
         severity r \<in> {''low'', ''medium'', ''high''} \<and>
         incident_type r \<in> {''deploy_incident'', ''load_incident''}))"
proof (intro conjI impI ballI)
  fix r
  assume "generate_match_events s e g = Inr (mdf, g1)" and "r \<in> set (records mdf)"
  then show "1.0 \<le> traffic_multiplier r" and "traffic_multiplier r \<le> 3.2"
    using generate_match_events_records by blast+
next
  fix r
  assume "generate_deploy_events s e g = Inr (ddf, g2)" and "r \<in> set (records ddf)"
  then show "deploy_size r \<in> {''small'', ''medium'', ''large''}"
    using generate_deploy_events_records by blast
next
  fix r
  assume a: "generate_incidents deploys_df matches_df g = Inr (idf, g3)"
    and r: "r \<in> set (records idf)"
  from generate_incidents_records[OF a] r
  have d: "(\<exists>p. incident_type r = ''deploy_incident'' \<and> severity r = deploy_severity p) \<or>
        (\<exists>i. incident_type r = ''load_incident'' \<and> severity r = load_severity i)"
    by fastforce
  from d show "severity r \<in> {''low'', ''medium'', ''high''}"
    using deploy_severity_domain load_severity_domain by metis
  from d show "incident_type r \<in> {''deploy_incident'', ''load_incident''}"
    by auto
qed

theorem field_domains_witness:
  "\<exists>mdf g1 ddf g2 idf g3.
     generate_match_events wed_19 wed_19 (\<lambda>n. 0) = Inr (mdf, g1) \<and>
     length (records mdf) = 3 \<and>
     (\<forall>r \<in> set (records mdf). 1.0 \<le> traffic_multiplier r \<and> traffic_multiplier r \<le> 3.2) \<and>
     generate_deploy_events 0 0 one_then_59 = Inr (ddf, g2) \<and>
     (\<forall>r \<in> set (records ddf). deploy_size r \<in> {''small'', ''medium'', ''large''}) \<and>
     generate_incidents [thu_deploy] [] (\<lambda>n. 0) = Inr (idf, g3) \<and>
     (\<forall>r \<in> set (records idf).
         severity r \<in> {''low'', ''medium'', ''high''} \<and>
         incident_type r \<in> {''deploy_incident'', ''load_incident''})"
proof -
  from run_match obtain mdf g1 where
    m: "generate_match_events wed_19 wed_19 (\<lambda>n. 0) = Inr (mdf, g1)"
    and n: "length (records mdf) = 3" by blast
  from run_deploy obtain ddf g2 where
    d: "generate_deploy_events 0 0 one_then_59 = Inr (ddf, g2)" by blast
  from run_deploy_incident obtain idf g3 where
    i: "generate_incidents [thu_deploy] [] (\<lambda>n. 0) = Inr (idf, g3)" by blast
  have "\<forall>r \<in> set (records mdf). 1.0 \<le> traffic_multiplier r \<and> traffic_multiplier r \<le> 3.2"
    using field_domains[of wed_19 wed_19 "\<lambda>n. 0" mdf g1] m by blast
  moreover have "\<forall>r \<in> set (records ddf). deploy_size r \<in> {''small'', ''medium'', ''large''}"
    using field_domains[of 0 0 one_then_59 _ _ ddf g2] d by blast
  moreover have "\<forall>r \<in> set (records idf).
         severity r \<in> {''low'', ''medium'', ''high''} \<and>
         incident_type r \<in> {''deploy_incident'', ''load_incident''}"
    using field_domains[of _ _ "\<lambda>n. 0" _ _ _ _ "[thu_deploy]" "[]" idf g3] i by blast
  ultimately show ?thesis using m n d i by blast
qed

text \<open>
  C8. With an empty match table the nearby match intensity is 0 at every timestamp, the
  code collects no \<^verbatim>\<open>load_incident\<close> row, and every row of a returned table is the
  \<^verbatim>\<open>deploy_incident\<close> of a deploy whose probability was computed with the intensity 0.
\<close>

theorem empty_matches_no_load_incidents:
  "near_match_intensity (hourly_match []) ts = 0 \<and>
   (\<exists>rows g'. incident_rows deploys_df [] g = Inr (rows, g') \<and>
       filter (\<lambda>r. incident_type r = ''load_incident'') rows = []) \<and>
   (generate_incidents deploys_df [] g = Inr (df, g1) \<longrightarrow>
       filter (\<lambda>r. incident_type r = ''load_incident'') (records df) = [] \<and>
       (\<forall>r \<in> set (records df). \<exists>dep \<in> set deploys_df.
           timestamp r = timestamp dep \<and> incident_type r = ''deploy_incident'' \<and>
           severity r = deploy_severity (incident_p dep 0)))"
proof (intro conjI impI)
  show "near_match_intensity (hourly_match []) ts = 0"
    by (rule near_match_intensity_empty)
next
  from incident_rows_rows[of deploys_df "[]" g] obtain rows g' where
    l: "incident_rows deploys_df [] g = Inr (rows, g')"
    and a: "\<forall>r \<in> set rows. incident_type r = ''deploy_incident''"
    by (auto simp: hourly_match_def)
  from a have "filter (\<lambda>r. incident_type r = ''load_incident'') rows = []"
    by (auto simp: filter_empty_conv)
  with l show "\<exists>rows g'. incident_rows deploys_df [] g = Inr (rows, g') \<and>
       filter (\<lambda>r. incident_type r = ''load_incident'') rows = []"
    by blast
next
  assume r: "generate_incidents deploys_df [] g = Inr (df, g1)"
  from generate_incidents_records[OF r]
  have a: "\<forall>r \<in> set (records df). \<exists>dep \<in> set deploys_df.
           timestamp r = timestamp dep \<and> incident_type r = ''deploy_incident'' \<and>
           severity r = deploy_severity (incident_p dep 0)"
    by (simp add: near_match_intensity_empty) (simp add: hourly_match_def)
  then show "\<forall>r \<in> set (records df). \<exists>dep \<in> set deploys_df.
           timestamp r = timestamp dep \<and> incident_type r = ''deploy_incident'' \<and>
           severity r = deploy_severity (incident_p dep 0)" .
  from a show "filter (\<lambda>r. incident_type r = ''load_incident'') (records df) = []"
    by (auto simp: filter_empty_conv)
qed

theorem empty_matches_no_load_incidents_witness:
  "\<exists>df g1. generate_incidents [thu_deploy] [] (\<lambda>n. 0) = Inr (df, g1) \<and>
     map incident_type (records df) = [''deploy_incident''] \<and>
     filter (\<lambda>r. incident_type r = ''load_incident'') (records df) = [] \<and>
     (\<forall>r \<in> set (records df). \<exists>dep \<in> set [thu_deploy].
           timestamp r = timestamp dep \<and> incident_type r = ''deploy_incident'' \<and>
           severity r = deploy_severity (incident_p dep 0))"
proof -
  from run_deploy_incident obtain df g1 where
    i: "generate_incidents [thu_deploy] [] (\<lambda>n. 0) = Inr (df, g1)"
    and t: "map incident_type (records df) = [''deploy_incident'']" by auto
  from empty_matches_no_load_incidents[of 0 "[thu_deploy]" "\<lambda>n. 0" df g1] i
  have "filter (\<lambda>r. incident_type r = ''load_incident'') (records df) = [] \<and>
       (\<forall>r \<in> set (records df). \<exists>dep \<in> set [thu_deploy].
           timestamp r = timestamp dep \<and> incident_type r = ''deploy_incident'' \<and>
           severity r = deploy_severity (incident_p dep 0))"
    by blast
  with i t show ?thesis
    by (intro exI[of _ df] exI[of _ g1]) simp
qed

text \<open>
  C9. Every timestamp of a table returned by \<^verbatim>\<open>generate_deploy_events\<close> lies between
  \<open>start_date\<close> and 59 minutes after the last hour of the grid, which is itself not after
  \<open>end_date\<close>; every \<^verbatim>\<open>load_incident\<close> timestamp lies within 59 minutes after the
  floored hour of a match row, hence at most 59 minutes after the last match hour. Both
  bounds are reached: a deploy 59 minutes after \<open>end_date\<close>, and a load incident 59 minutes
  after the only match hour.
\<close>

theorem timestamps_within_grid:
  "(generate_deploy_events s e g = Inr (df, g') \<longrightarrow>
      (\<forall>r \<in> set (records df).
          s \<le> timestamp r \<and>
          timestamp r \<le> last (hours_between s e) + Timedelta_minutes 59 \<and>
          last (hours_between s e) \<le> e)) \<and>
   (generate_incidents deploys_df matches_df g = Inr (idf, g3) \<longrightarrow>
      (\<forall>r \<in> set (records idf). incident_type r = ''load_incident'' \<longrightarrow>
          (\<exists>m \<in> set matches_df.
              floor_h (timestamp m) \<le> timestamp r \<and>
              timestamp r \<le> floor_h (timestamp m) + Timedelta_minutes 59) \<and>
          timestamp r \<le> Max ((\<lambda>m. floor_h (timestamp m)) ` set matches_df)
                            + Timedelta_minutes 59)) \<and>
   (\<exists>s e g df g'. generate_deploy_events s e g = Inr (df, g') \<and>
      (\<exists>r \<in> set (records df). timestamp r = e + Timedelta_minutes 59)) \<and>
   (\<exists>m g idf g'. generate_incidents [] [m] g = Inr (idf, g') \<and>
      (\<exists>r \<in> set (records idf). incident_type r = ''load_incident'' \<and>
          timestamp r = floor_h (timestamp m) + Timedelta_minutes 59))"
proof (intro conjI impI ballI)
  fix r
  assume a: "generate_deploy_events s e g = Inr (df, g')" and r: "r \<in> set (records df)"
  from generate_deploy_events_records[OF a] r obtain h where
    h: "h \<in> set (hours_between s e)" and lo: "h \<le> timestamp r"
    and hi: "timestamp r \<le> h + Timedelta_minutes 59"
    by blast
  show "s \<le> timestamp r" using hours_between_mem(1)[OF h] lo by linarith
  show "timestamp r \<le> last (hours_between s e) + Timedelta_minutes 59"
    using hours_between_mem(2)[OF h] hi by linarith
  show "last (hours_between s e) \<le> e" using h by (rule hours_between_mem(3))
next
  fix r
  assume a: "generate_incidents deploys_df matches_df g = Inr (idf, g3)"
    and r: "r \<in> set (records idf)" and t: "incident_type r = ''load_incident''"
  from generate_incidents_records[OF a] r t obtain h i where
    hm: "(h, i) \<in> set (hourly_match matches_df)" and lo: "h \<le> timestamp r"
    and hi: "timestamp r \<le> h + Timedelta_minutes 59"
    by fastforce
  from hourly_match_keys[OF hm] obtain m where
    m: "m \<in> set matches_df" and hf: "h = floor_h (timestamp m)"
    by blast
  show "\<exists>m \<in> set matches_df.
              floor_h (timestamp m) \<le> timestamp r \<and>
              timestamp r \<le> floor_h (timestamp m) + Timedelta_minutes 59"
    using m hf lo hi by blast
  have "h \<le> Max ((\<lambda>m. floor_h (timestamp m)) ` set matches_df)"
    using m hf by (simp add: Max_ge)
  then show "timestamp r \<le> Max ((\<lambda>m. floor_h (timestamp m)) ` set matches_df)
                            + Timedelta_minutes 59"
    using hi by linarith
next
  from run_deploy obtain df g' where
    d: "generate_deploy_events 0 0 one_then_59 = Inr (df, g')"
    and t: "map timestamp (records df) = [Timedelta_minutes 59]"
    by auto
  from t have "\<exists>r \<in> set (records df). timestamp r = 0 + Timedelta_minutes 59"
    by (cases "records df") auto
  with d show "\<exists>s e g df g'. generate_deploy_events s e g = Inr (df, g') \<and>
      (\<exists>r \<in> set (records df). timestamp r = e + Timedelta_minutes 59)"
    by blast
next
  from run_load_incident obtain idf g' where
    d: "generate_incidents [] [thu_match] one_then_59 = Inr (idf, g')"
    and ty: "map incident_type (records idf) = [''load_incident'']"
    and t: "map timestamp (records idf) = [Timedelta_minutes 59]"
    by auto
  have f: "floor_h (timestamp thu_match) = 0"
    by (simp add: thu_match_def floor_h_def)
  from ty t have "\<exists>r \<in> set (records idf). incident_type r = ''load_incident'' \<and>
          timestamp r = floor_h (timestamp thu_match) + Timedelta_minutes 59"
    by (cases "records idf") (auto simp: f)
  with d show "\<exists>m g idf g'. generate_incidents [] [m] g = Inr (idf, g') \<and>
      (\<exists>r \<in> set (records idf). incident_type r = ''load_incident'' \<and>
          timestamp r = floor_h (timestamp m) + Timedelta_minutes 59)"
    by blast
qed

theorem timestamps_within_grid_witness:
  "\<exists>df g' idf g3.
     generate_deploy_events 0 0 one_then_59 = Inr (df, g') \<and>
     map timestamp (records df) = [Timedelta_minutes 59] \<and>
     (\<forall>r \<in> set (records df).
          0 \<le> timestamp r \<and>
          timestamp r \<le> last (hours_between 0 0) + Timedelta_minutes 59 \<and>
          last (hours_between 0 0) \<le> 0) \<and>
     generate_incidents [] [thu_match] one_then_59 = Inr (idf, g3) \<and>
     map incident_type (records idf) = [''load_incident''] \<and>
     (\<forall>r \<in> set (records idf). incident_type r = ''load_incident'' \<longrightarrow>
          (\<exists>m \<in> set [thu_match].
              floor_h (timestamp m) \<le> timestamp r \<and>
              timestamp r \<le> floor_h (timestamp m) + Timedelta_minutes 59) \<and>
          timestamp r \<le> Max ((\<lambda>m. floor_h (timestamp m)) ` set [thu_match])
                            + Timedelta_minutes 59)"
proof -
  from run_deploy obtain df g' where
    d: "generate_deploy_events 0 0 one_then_59 = Inr (df, g')"
    and t: "map timestamp (records df) = [Timedelta_minutes 59]"
    by auto
  from run_load_incident obtain idf g3 where
    i: "generate_incidents [] [thu_match] one_then_59 = Inr (idf, g3)"
    and ty: "map incident_type (records idf) = [''load_incident'']"
    by auto
  have "\<forall>r \<in> set (records df).
          0 \<le> timestamp r \<and>
          timestamp r \<le> last (hours_between 0 0) + Timedelta_minutes 59 \<and>
          last (hours_between 0 0) \<le> 0"
    using timestamps_within_grid[of 0 0 one_then_59 df g'] d by blast
  moreover have "\<forall>r \<in> set (records idf). incident_type r = ''load_incident'' \<longrightarrow>
          (\<exists>m \<in> set [thu_match].
              floor_h (timestamp m) \<le> timestamp r \<and>
              timestamp r \<le> floor_h (timestamp m) + Timedelta_minutes 59) \<and>
          timestamp r \<le> Max ((\<lambda>m. floor_h (timestamp m)) ` set [thu_match])
                            + Timedelta_minutes 59"
    using timestamps_within_grid[of _ _ one_then_59 _ _ "[]" "[thu_match]" idf g3] i by blast
  ultimately show ?thesis using d t i ty
    by (intro exI[of _ df] exI[of _ g'] exI[of _ idf] exI[of _ g3]) simp
qed



end
